theory Spec2Isabelle
  imports Complex_Main "HOL-Library.Word" "HOL-Library.Log_Nat"
begin

section \<open>Data model of main.go\<close>

text \<open>
  Go's \<^verbatim>\<open>int\<close> is taken at its 64-bit width (a \<open>64 word\<close>, read as a signed number
  with \<open>sint\<close>). The balances and amounts are \<^verbatim>\<open>float64\<close> in the source. Their type is
  left as a type variable \<open>'v\<close>: the functions below use nothing but the zero value,
  \<open>+\<close>, \<open>-\<close> and \<open>\<ge>\<close> of that type, exactly where the source uses them, and no law
  of arithmetic is assumed unless a theorem says so in the sort of \<open>'v\<close>. The type
  \<open>float64\<close> itself, with its rounding, is one instance and is defined further down.

  The two structs both have fields \<^verbatim>\<open>id\<close> and \<^verbatim>\<open>value\<close>; the selectors carry the
  struct's name in front.
\<close>

record 'v account =
  account_id :: "64 word"
  account_name :: string
  account_value :: 'v

record 'v transaction =
  transaction_id :: "64 word"
  transaction_value :: 'v
  transactionType :: "64 word"
  userID :: "64 word"

text \<open>\<^verbatim>\<open>map[int]account\<close>\<close>

type_synonym 'v ledger = "64 word \<rightharpoonup> 'v account"

text \<open>
  The package-level map literal \<^verbatim>\<open>accountList\<close>, entry by entry. The name under key 4
  holds one non-ASCII letter, two bytes in the UTF-8 of a Go string.
\<close>

definition accountList :: "'v::numeral ledger" where
  "accountList = Map.empty
     (1 \<mapsto> \<lparr>account_id = 1, account_name = ''Yuri'', account_value = 200000\<rparr>,
      2 \<mapsto> \<lparr>account_id = 2, account_name = ''Raphael'', account_value = 130000\<rparr>,
      3 \<mapsto> \<lparr>account_id = 3, account_name = ''Dalton'', account_value = 150000\<rparr>,
      4 \<mapsto> \<lparr>account_id = 4, account_name = ''Maranh'' @ [CHR 0xC3, CHR 0xA3] @ ''o'',
             account_value = 170000\<rparr>,
      5 \<mapsto> \<lparr>account_id = 5, account_name = ''Fernando'', account_value = 1\<rparr>,
      6 \<mapsto> \<lparr>account_id = 6, account_name = ''Cordeiro'', account_value = 5000000\<rparr>,
      7 \<mapsto> \<lparr>account_id = 7, account_name = ''Christian'', account_value = 20000\<rparr>,
      8 \<mapsto> \<lparr>account_id = 7, account_name = ''Paula'', account_value = 27000\<rparr>)"

definition consumerCount :: nat where
  "consumerCount = 50"

text \<open>
  Indexing a Go map with a key it does not hold yields the zero value of the element
  type, here \<^verbatim>\<open>account{0, "", 0}\<close>.
\<close>

definition map_index :: "'v::zero ledger \<Rightarrow> 64 word \<Rightarrow> 'v account" where
  "map_index m k =
     (case m k of
        Some a \<Rightarrow> a
      | None \<Rightarrow> \<lparr>account_id = 0, account_name = [], account_value = 0\<rparr>)"

section \<open>withdraw and deposit\<close>

text \<open>
  Both functions read the entry of \<^verbatim>\<open>transactionData.userID\<close> under the read lock
  into the local \<^verbatim>\<open>accountData\<close>, and then store under the write lock. The two halves
  are separate definitions, since other goroutines may run between them; the sequential
  function is their composition. The sleep before the read changes no data.
\<close>

definition withdraw_store ::
    "'v::{minus,ord} transaction \<Rightarrow> 'v account \<Rightarrow> 'v ledger \<Rightarrow> 'v ledger" where
  "withdraw_store transactionData accountData al =
     (if account_value accountData \<ge> transaction_value transactionData
      then al(userID transactionData \<mapsto>
             \<lparr>account_id = account_id accountData,
              account_name = account_name accountData,
              account_value = account_value accountData - transaction_value transactionData\<rparr>)
      else al)"

definition withdraw :: "'v::{zero,minus,ord} transaction \<Rightarrow> 'v ledger \<Rightarrow> 'v ledger" where
  "withdraw transactionData al =
     withdraw_store transactionData (map_index al (userID transactionData)) al"

definition deposit_store ::
    "'v::plus transaction \<Rightarrow> 'v account \<Rightarrow> 'v ledger \<Rightarrow> 'v ledger" where
  "deposit_store transactionData accountData al =
     al(userID transactionData \<mapsto>
          \<lparr>account_id = account_id accountData,
           account_name = account_name accountData,
           account_value = account_value accountData + transaction_value transactionData\<rparr>)"

definition deposit :: "'v::{zero,plus} transaction \<Rightarrow> 'v ledger \<Rightarrow> 'v ledger" where
  "deposit transactionData al =
     deposit_store transactionData (map_index al (userID transactionData)) al"

text \<open>The \<^verbatim>\<open>switch\<close> of \<^verbatim>\<open>consume\<close>: 1 withdraws, 2 deposits, any other code does nothing.\<close>

definition apply_transaction ::
    "'v::{zero,plus,minus,ord} transaction \<Rightarrow> 'v ledger \<Rightarrow> 'v ledger" where
  "apply_transaction transactionData al =
     (if transactionType transactionData = 1 then withdraw transactionData al
      else if transactionType transactionData = 2 then deposit transactionData al
      else al)"

section \<open>The permits\<close>

text \<open>
  \<^verbatim>\<open>semaphores\<close> is a slice of \<^verbatim>\<open>semaphore.NewWeighted(1)\<close>, one appended per entry of
  \<^verbatim>\<open>accountList\<close>. A weighted semaphore of size 1 is represented by its counter of held
  weight. The library's \<^verbatim>\<open>Acquire(ctx, 1)\<close> takes the permit when the held weight plus 1
  does not exceed the size and waits otherwise (the context is never cancelled);
  \<^verbatim>\<open>Release(1)\<close> gives the weight back and panics when more is released than is held.
  Indexing a slice out of its bounds is a run-time panic in Go.
\<close>

datatype halt =
    IndexOutOfRange        \<comment> \<open>run-time panic of a slice index\<close>
  | ReleasedMoreThanHeld   \<comment> \<open>panic of \<^verbatim>\<open>Release\<close>\<close>
  | LogFatal               \<comment> \<open>\<^verbatim>\<open>log.Fatal\<close>: the process exits with status 1\<close>
  | AcquireBlocks          \<comment> \<open>\<^verbatim>\<open>Acquire\<close> waits for a permit nobody will release\<close>

text \<open>The index expression \<^verbatim>\<open>transactionData.userID-1\<close>, in 64-bit wrap-around arithmetic.\<close>

definition permit :: "64 word \<Rightarrow> int" where
  "permit u = sint (u - 1)"

definition indexable :: "'a list \<Rightarrow> int \<Rightarrow> bool" where
  "indexable xs i \<longleftrightarrow> 0 \<le> i \<and> i < int (length xs)"

definition Acquire :: "nat list \<Rightarrow> int \<Rightarrow> halt + nat list" where
  "Acquire sems i =
     (if \<not> indexable sems i then Inl IndexOutOfRange
      else if sems ! nat i + 1 \<le> 1 then Inr (sems[nat i := sems ! nat i + 1])
      else Inl AcquireBlocks)"

definition Release :: "nat list \<Rightarrow> int \<Rightarrow> halt + nat list" where
  "Release sems i =
     (if \<not> indexable sems i then Inl IndexOutOfRange
      else if sems ! nat i < 1 then Inl ReleasedMoreThanHeld
      else Inr (sems[nat i := sems ! nat i - 1]))"

text \<open>The loop of \<^verbatim>\<open>main\<close> that fills \<^verbatim>\<open>semaphores\<close>: one free permit per map entry.\<close>

definition new_semaphores :: "'v ledger \<Rightarrow> nat list" where
  "new_semaphores al = replicate (card (dom al)) 0"

section \<open>One consumer on its own\<close>

text \<open>
  The body of the \<^verbatim>\<open>range\<close> loop of \<^verbatim>\<open>consume\<close> for one received transaction, run
  with no other goroutine in between: acquire, switch, release. The result is what
  stopped the run, if anything did, and the permits and the map as they are then.
\<close>

type_synonym 'v shared = "nat list \<times> 'v ledger"

definition consume_body ::
    "'v::{zero,plus,minus,ord} transaction \<Rightarrow> 'v shared \<Rightarrow> halt option \<times> 'v shared" where
  "consume_body transactionData s =
     (case s of (sems, al) \<Rightarrow>
        (case Acquire sems (permit (userID transactionData)) of
           Inl h \<Rightarrow> (Some h, (sems, al))
         | Inr sems1 \<Rightarrow>
             (let al1 = apply_transaction transactionData al in
              case Release sems1 (permit (userID transactionData)) of
                Inl h \<Rightarrow> (Some h, (sems1, al1))
              | Inr sems2 \<Rightarrow> (None, (sems2, al1)))))"

text \<open>
  The loop itself over the transactions the channel delivers to this consumer, up to
  the point where the channel is closed and the consumer would signal \<^verbatim>\<open>done\<close>.
\<close>

fun consume ::
    "'v::{zero,plus,minus,ord} transaction list \<Rightarrow> 'v shared \<Rightarrow> halt option \<times> 'v shared" where
  "consume [] s = (None, s)"
| "consume (transactionData # rest) s =
     (case consume_body transactionData s of
        (Some h, s1) \<Rightarrow> (Some h, s1)
      | (None, s1) \<Rightarrow> consume rest s1)"

section \<open>produce\<close>

text \<open>
  The CSV reader is represented by the rows its successive \<^verbatim>\<open>Read\<close> calls return before
  \<^verbatim>\<open>io.EOF\<close>; \<^verbatim>\<open>produce\<close> looks at no other error of \<^verbatim>\<open>Read\<close> and goes on with the row
  it was given (a nil row is the empty list). \<^verbatim>\<open>strconv.Atoi\<close> and
  \<^verbatim>\<open>strconv.ParseFloat\<close> are parameters: \<open>None\<close> stands for a non-nil error.
\<close>

definition transaction_of_row ::
    "(string \<Rightarrow> 64 word option) \<Rightarrow> (string \<Rightarrow> 'v option) \<Rightarrow> string list
       \<Rightarrow> halt + 'v transaction" where
  "transaction_of_row Atoi ParseFloat row =
     (if length row \<le> 0 then Inl IndexOutOfRange
      else (case Atoi (row ! 0) of
        None \<Rightarrow> Inl LogFatal
      | Some tid \<Rightarrow>
      (if length row \<le> 1 then Inl IndexOutOfRange
       else (case ParseFloat (row ! 1) of
         None \<Rightarrow> Inl LogFatal
       | Some amount \<Rightarrow>
       (if length row \<le> 2 then Inl IndexOutOfRange
        else (case Atoi (row ! 2) of
          None \<Rightarrow> Inl LogFatal
        | Some kind \<Rightarrow>
        (if length row \<le> 3 then Inl IndexOutOfRange
         else (case Atoi (row ! 3) of
           None \<Rightarrow> Inl LogFatal
         | Some uid \<Rightarrow>
             Inr \<lparr>transaction_id = tid, transaction_value = amount,
                  transactionType = kind, userID = uid\<rparr>))))))))"

text \<open>
  The transactions sent on the channel, in order, and how the loop ended: \<open>None\<close> when
  the reader reached the end and the channel was closed.
\<close>

fun produce ::
    "(string \<Rightarrow> 64 word option) \<Rightarrow> (string \<Rightarrow> 'v option) \<Rightarrow> string list list
       \<Rightarrow> 'v transaction list \<times> halt option" where
  "produce Atoi ParseFloat [] = ([], None)"
| "produce Atoi ParseFloat (row # rows) =
     (case transaction_of_row Atoi ParseFloat row of
        Inl h \<Rightarrow> ([], Some h)
      | Inr transactionData \<Rightarrow>
          (case produce Atoi ParseFloat rows of
             (sent, e) \<Rightarrow> (transactionData # sent, e)))"

section \<open>The goroutines together\<close>

text \<open>
  The program of \<^verbatim>\<open>main\<close> as a transition system. A state holds where each goroutine
  stands and the shared data; a step is one goroutine doing its next action on the shared
  data, or two of them meeting on an unbuffered channel. Steps are interleaved in any
  order, the order being the schedule. The steps are those at which the source touches
  shared data: a channel operation, \<^verbatim>\<open>Acquire\<close>, the read of the map under \<^verbatim>\<open>RLock\<close>,
  the store under \<^verbatim>\<open>Lock\<close>, \<^verbatim>\<open>Release\<close>, and the final read of the map by \<^verbatim>\<open>main\<close>.
  Waiting goroutines are not queued: whoever is scheduled while the permit is free takes
  it, which allows every order the library's queue of waiters can produce and more.

  A consumer stands at the \<^verbatim>\<open>range\<close> receive, before \<^verbatim>\<open>Acquire\<close>, before the
  \<^verbatim>\<open>switch\<close>, inside \<^verbatim>\<open>withdraw\<close> or \<^verbatim>\<open>deposit\<close> between the read and the store
  (with its local copy \<^verbatim>\<open>accountData\<close>), before \<^verbatim>\<open>Release\<close>, at \<^verbatim>\<open>done <- true\<close>, or it
  has returned.
\<close>

datatype 'v consumer =
    Receiving
  | Acquiring "'v transaction"
  | Holding "'v transaction"
  | Withdrawing "'v transaction" "'v account"
  | Depositing "'v transaction" "'v account"
  | Releasing "'v transaction"
  | Signalling
  | Returned

text \<open>
  The producer stands at \<^verbatim>\<open>csvr.Read()\<close> with the rest of its input, at the channel
  send with a transaction in hand, or it has closed the channel. Its input is given as
  what \<open>transaction_of_row\<close> yields for each row.
\<close>

datatype 'v producer =
    Reading "(halt + 'v transaction) list"
  | Sending "'v transaction" "(halt + 'v transaction) list"
  | Closed

text \<open>
  \<^verbatim>\<open>main\<close>, once the goroutines are started, stands at \<^verbatim>\<open><-done\<close>, then before the
  final \<^verbatim>\<open>Println\<close> of \<^verbatim>\<open>accountList\<close>, and then it has printed that map and returns,
  which ends the process.
\<close>

datatype 'v main_flow =
    AwaitingDone
  | Reporting
  | Finished "'v ledger"

record 'v system =
  producer :: "'v producer"
  consumers :: "'v consumer list"
  semaphores :: "nat list"
  ledger :: "'v ledger"
  main_flow :: "'v main_flow"
  halted :: "halt option"

definition main :: "'v ledger \<Rightarrow> nat \<Rightarrow> (halt + 'v transaction) list \<Rightarrow> 'v system" where
  "main al n input =
     \<lparr>producer = Reading input,
      consumers = replicate n Receiving,
      semaphores = new_semaphores al,
      ledger = al,
      main_flow = AwaitingDone,
      halted = None\<rparr>"

text \<open>No goroutine moves after a panic, after \<^verbatim>\<open>log.Fatal\<close>, or after \<^verbatim>\<open>main\<close> returned.\<close>

definition running :: "'v system \<Rightarrow> bool" where
  "running s \<longleftrightarrow>
     halted s = None \<and> (case main_flow s of Finished _ \<Rightarrow> False | _ \<Rightarrow> True)"

text \<open>Which goroutine moves next: the producer, the consumer of a given number, or \<^verbatim>\<open>main\<close>.\<close>

datatype goroutine = Producer | Consumer nat | Main

text \<open>
  The next action of each goroutine on a state, or \<open>None\<close> when it cannot move there
  (it waits on a channel or on a permit, or it has returned).

  The producer converts the next row and then stands at the send; a row that does not
  convert stops the process; at the end of the input it closes the channel. The send
  itself completes when a consumer receives.
\<close>

definition produce_step :: "'v system \<Rightarrow> 'v system option" where
  "produce_step s =
     (case producer s of
        Reading [] \<Rightarrow> Some (s\<lparr>producer := Closed\<rparr>)
      | Reading (Inl h # rest) \<Rightarrow> Some (s\<lparr>halted := Some h\<rparr>)
      | Reading (Inr t # rest) \<Rightarrow> Some (s\<lparr>producer := Sending t rest\<rparr>)
      | Sending t rest \<Rightarrow> None
      | Closed \<Rightarrow> None)"

text \<open>
  Consumer \<open>w\<close>: it receives what the producer is sending, or leaves the loop when the
  channel is closed; it acquires the permit when that is free, or panics on the index;
  it enters \<^verbatim>\<open>withdraw\<close> or \<^verbatim>\<open>deposit\<close> and reads the entry; it stores; it releases; it
  sends \<^verbatim>\<open>done\<close> when \<^verbatim>\<open>main\<close> is there to receive.
\<close>

definition consume_step ::
    "nat \<Rightarrow> 'v::{zero,plus,minus,ord} system \<Rightarrow> 'v system option" where
  "consume_step w s =
     (if length (consumers s) \<le> w then None
      else
        (case consumers s ! w of
           Receiving \<Rightarrow>
             (case producer s of
                Sending t rest \<Rightarrow>
                  Some (s\<lparr>producer := Reading rest,
                          consumers := (consumers s)[w := Acquiring t]\<rparr>)
              | Closed \<Rightarrow> Some (s\<lparr>consumers := (consumers s)[w := Signalling]\<rparr>)
              | Reading rest \<Rightarrow> None)
         | Acquiring t \<Rightarrow>
             (case Acquire (semaphores s) (permit (userID t)) of
                Inr sems \<Rightarrow>
                  Some (s\<lparr>consumers := (consumers s)[w := Holding t], semaphores := sems\<rparr>)
              | Inl AcquireBlocks \<Rightarrow> None
              | Inl h \<Rightarrow> Some (s\<lparr>halted := Some h\<rparr>))
         | Holding t \<Rightarrow>
             Some (s\<lparr>consumers := (consumers s)
                     [w := (if transactionType t = 1
                            then Withdrawing t (map_index (ledger s) (userID t))
                            else if transactionType t = 2
                            then Depositing t (map_index (ledger s) (userID t))
                            else Releasing t)]\<rparr>)
         | Withdrawing t accountData \<Rightarrow>
             Some (s\<lparr>consumers := (consumers s)[w := Releasing t],
                     ledger := withdraw_store t accountData (ledger s)\<rparr>)
         | Depositing t accountData \<Rightarrow>
             Some (s\<lparr>consumers := (consumers s)[w := Releasing t],
                     ledger := deposit_store t accountData (ledger s)\<rparr>)
         | Releasing t \<Rightarrow>
             (case Release (semaphores s) (permit (userID t)) of
                Inr sems \<Rightarrow>
                  Some (s\<lparr>consumers := (consumers s)[w := Receiving], semaphores := sems\<rparr>)
              | Inl h \<Rightarrow> Some (s\<lparr>halted := Some h\<rparr>))
         | Signalling \<Rightarrow>
             (if main_flow s = AwaitingDone
              then Some (s\<lparr>consumers := (consumers s)[w := Returned],
                           main_flow := Reporting\<rparr>)
              else None)
         | Returned \<Rightarrow> None))"

text \<open>\<^verbatim>\<open>main\<close> reads the map for its report once it has received from \<^verbatim>\<open>done\<close>.\<close>

definition main_step :: "'v system \<Rightarrow> 'v system option" where
  "main_step s =
     (case main_flow s of
        Reporting \<Rightarrow> Some (s\<lparr>main_flow := Finished (ledger s)\<rparr>)
      | AwaitingDone \<Rightarrow> None
      | Finished l \<Rightarrow> None)"

definition step ::
    "goroutine \<Rightarrow> 'v::{zero,plus,minus,ord} system \<Rightarrow> 'v system option" where
  "step g s =
     (if \<not> running s then None
      else (case g of
              Producer \<Rightarrow> produce_step s
            | Consumer w \<Rightarrow> consume_step w s
            | Main \<Rightarrow> main_step s))"

text \<open>
  A schedule is the list of the goroutines that move, in order. It runs from a state to
  the state it leads to, and is no run of the program when it names a goroutine that
  cannot move.
\<close>

fun run ::
    "goroutine list \<Rightarrow> 'v::{zero,plus,minus,ord} system \<Rightarrow> 'v system option" where
  "run [] s = Some s"
| "run (g # gs) s = (case step g s of None \<Rightarrow> None | Some s1 \<Rightarrow> run gs s1)"

text \<open>The account whose permit a consumer holds: from after \<^verbatim>\<open>Acquire\<close> up to \<^verbatim>\<open>Release\<close>.\<close>

fun holds :: "'v consumer \<Rightarrow> 64 word option" where
  "holds (Holding t) = Some (userID t)"
| "holds (Withdrawing t accountData) = Some (userID t)"
| "holds (Depositing t accountData) = Some (userID t)"
| "holds (Releasing t) = Some (userID t)"
| "holds _ = None"

definition held :: "'v consumer list \<Rightarrow> 64 word \<Rightarrow> nat" where
  "held cs u = length (filter (\<lambda>c. holds c = Some u) cs)"

text \<open>
  The account on whose entry a consumer is in the middle of a read-modify-write cycle:
  it has read the entry and has not stored yet.
\<close>

fun updating :: "'v consumer \<Rightarrow> 64 word option" where
  "updating (Withdrawing t accountData) = Some (userID t)"
| "updating (Depositing t accountData) = Some (userID t)"
| "updating _ = None"

text \<open>
  The invariant behind the exclusion: the counter of every semaphore is the number of
  consumers holding its permit, no counter exceeds the size 1, and no consumer holds a
  permit that the slice does not have.
\<close>

definition accounted :: "'v system \<Rightarrow> bool" where
  "accounted s \<longleftrightarrow>
     (\<forall>u. held (consumers s) u =
            (if indexable (semaphores s) (permit u) then semaphores s ! nat (permit u) else 0))
     \<and> (\<forall>i < length (semaphores s). semaphores s ! i \<le> 1)"

section \<open>float64\<close>

text \<open>
  Go's \<^verbatim>\<open>float64\<close> is IEEE 754 binary64, and its arithmetic rounds to the nearest
  representable value, ties to the one with an even significand. A value is a finite
  number, given by the rational it stands for (\<open>Finite 0\<close> is the positive zero), the
  negative zero, an infinity, or not-a-number.
\<close>

datatype float64 = Finite rat | NegZero | PosInf | NegInf | NaN

text \<open>
  The power of two of any integer exponent, and the binary exponent of a positive
  rational \<open>r\<close>: the \<open>l\<close> with \<open>2^l \<le> r < 2^(l+1)\<close>, found from the bit lengths
  of numerator and denominator.
\<close>

definition pow2 :: "int \<Rightarrow> rat" where
  "pow2 e = (if 0 \<le> e then 2 ^ nat e else 1 / 2 ^ nat (- e))"

definition ilog2 :: "rat \<Rightarrow> int" where
  "ilog2 r =
     (case quotient_of r of
        (p, q) \<Rightarrow>
          (let k = bitlen p - bitlen q
           in if pow2 k \<le> r then k else k - 1))"

definition round_half_even :: "rat \<Rightarrow> int" where
  "round_half_even x =
     (let f = \<lfloor>x\<rfloor>; d = x - of_int f
      in if d < 1 / 2 then f else if 1 / 2 < d then f + 1
         else if even f then f else f + 1)"

text \<open>
  Rounding a rational to binary64: 53 bits of significand, the unit in the last place
  no smaller than \<open>2^-1074\<close> (the subnormal numbers), overflow to an infinity from
  \<open>2^1024\<close> on, underflow to the zero of the same sign. This is also how a decimal
  literal and \<^verbatim>\<open>strconv.ParseFloat\<close> arrive at their value.
\<close>

definition round64 :: "rat \<Rightarrow> float64" where
  "round64 r =
     (if r = 0 then Finite 0
      else
        (let e = max (ilog2 \<bar>r\<bar> - 52) (- 1074);
             m = round_half_even (\<bar>r\<bar> / pow2 e);
             v = of_int m * pow2 e
         in if pow2 1024 \<le> v then (if 0 < r then PosInf else NegInf)
            else if v = 0 then (if 0 < r then Finite 0 else NegZero)
            else Finite (if 0 < r then v else - v)))"

text \<open>
  Addition, negation and comparison. A sum of finite values is the exact sum, rounded;
  an exact sum of zero is the positive zero, except that two negative zeros add up to the
  negative one. Subtraction is the addition of the negated value. Every comparison with
  not-a-number is false.
\<close>

fun exact :: "float64 \<Rightarrow> rat" where
  "exact (Finite r) = r"
| "exact x = 0"

fun add64 :: "float64 \<Rightarrow> float64 \<Rightarrow> float64" where
  "add64 NaN y = NaN"
| "add64 x NaN = NaN"
| "add64 PosInf NegInf = NaN"
| "add64 NegInf PosInf = NaN"
| "add64 PosInf y = PosInf"
| "add64 x PosInf = PosInf"
| "add64 NegInf y = NegInf"
| "add64 x NegInf = NegInf"
| "add64 NegZero NegZero = NegZero"
| "add64 x y = round64 (exact x + exact y)"

fun neg64 :: "float64 \<Rightarrow> float64" where
  "neg64 (Finite r) = (if r = 0 then NegZero else Finite (- r))"
| "neg64 NegZero = Finite 0"
| "neg64 PosInf = NegInf"
| "neg64 NegInf = PosInf"
| "neg64 NaN = NaN"

fun le64 :: "float64 \<Rightarrow> float64 \<Rightarrow> bool" where
  "le64 NaN y = False"
| "le64 x NaN = False"
| "le64 NegInf y = True"
| "le64 x PosInf = True"
| "le64 PosInf y = False"
| "le64 x NegInf = False"
| "le64 x y = (exact x \<le> exact y)"

instantiation float64 :: "{zero, plus, minus, ord}"
begin

definition zero_float64 :: float64 where
  "zero_float64 = Finite 0"

definition plus_float64 :: "float64 \<Rightarrow> float64 \<Rightarrow> float64" where
  "plus_float64 x y = add64 x y"

definition minus_float64 :: "float64 \<Rightarrow> float64 \<Rightarrow> float64" where
  "minus_float64 x y = add64 x (neg64 y)"

definition less_eq_float64 :: "float64 \<Rightarrow> float64 \<Rightarrow> bool" where
  "less_eq_float64 x y = le64 x y"

definition less_float64 :: "float64 \<Rightarrow> float64 \<Rightarrow> bool" where
  "less_float64 x y = (le64 x y \<and> \<not> le64 y x)"

instance ..

end

section \<open>Notions of the properties\<close>

text \<open>
  A row with a field that does not convert: one of the four fields is there and its
  conversion returns an error.
\<close>

definition malformed ::
    "(string \<Rightarrow> 64 word option) \<Rightarrow> (string \<Rightarrow> 'v option) \<Rightarrow> string list \<Rightarrow> bool" where
  "malformed Atoi ParseFloat row \<longleftrightarrow>
     (0 < length row \<and> Atoi (row ! 0) = None)
   \<or> (1 < length row \<and> ParseFloat (row ! 1) = None)
   \<or> (2 < length row \<and> Atoi (row ! 2) = None)
   \<or> (3 < length row \<and> Atoi (row ! 3) = None)"

text \<open>
  The balance of an account as a Go read of the map gives it, and the map after one
  consumer has worked through a list of transactions.
\<close>

definition balance :: "'v::zero ledger \<Rightarrow> 64 word \<Rightarrow> 'v" where
  "balance al u = account_value (map_index al u)"

definition ledger_after ::
    "'v::{zero,plus,minus,ord} transaction list \<Rightarrow> 'v shared \<Rightarrow> 'v ledger" where
  "ledger_after ts s = snd (snd (consume ts s))"

text \<open>
  The amounts of the deposits of a list, and the amounts of its withdrawals that were
  applied: those whose amount did not exceed the balance of their account at the moment
  they were processed, that is, after the transactions before them.
\<close>

definition deposits :: "'v transaction list \<Rightarrow> 'v list" where
  "deposits ts = map transaction_value (filter (\<lambda>t. transactionType t = 2) ts)"

definition applied_withdrawals ::
    "'v::{zero,plus,minus,ord} transaction list \<Rightarrow> 'v shared \<Rightarrow> 'v list" where
  "applied_withdrawals ts s =
     map (\<lambda>k. transaction_value (ts ! k))
       (filter (\<lambda>k. transactionType (ts ! k) = 1
                  \<and> balance (ledger_after (take k ts) s) (userID (ts ! k))
                       \<ge> transaction_value (ts ! k))
          [0..<length ts])"





section \<open>Sample inputs\<close>

text \<open>
  A run used below: the input is one row, a deposit of 30 to account 1, and the seed map
  with the 50 consumers of the source. Balances are taken in \<open>real\<close>, where the
  amounts of these examples and their sums are what they are in \<^verbatim>\<open>float64\<close>.
\<close>

definition deposit30 :: "real transaction" where
  "deposit30 = \<lparr>transaction_id = 1, transaction_value = 30, transactionType = 2, userID = 1\<rparr>"

text \<open>
  With the deposit twice in the input: consumer 1 has received the first and waits for the
  permit of account 1, consumer 0 has received the second, holds that permit and has read
  the entry, and has not stored yet.
\<close>

definition contended :: "real system" where
  "contended =
     \<lparr>producer = Reading [],
      consumers = (replicate consumerCount Receiving)
        [1 := Acquiring deposit30,
         0 := Depositing deposit30
                \<lparr>account_id = 1, account_name = ''Yuri'', account_value = 200000\<rparr>],
      semaphores = (new_semaphores (accountList :: real ledger))[0 := 1],
      ledger = accountList,
      main_flow = AwaitingDone,
      halted = None\<rparr>"

text \<open>
  Consumer 0 has received the deposit and not yet asked for the permit; the channel is
  closed, consumer 1 has seen that and sent \<^verbatim>\<open>done\<close>; \<^verbatim>\<open>main\<close> has printed the map.
\<close>

definition reported_early :: "real system" where
  "reported_early =
     \<lparr>producer = Closed,
      consumers = (replicate consumerCount Receiving)[0 := Acquiring deposit30, 1 := Returned],
      semaphores = new_semaphores (accountList :: real ledger),
      ledger = accountList,
      main_flow = Finished accountList,
      halted = None\<rparr>"

text \<open>The seed map with its permits, all free.\<close>

definition seed :: "real shared" where
  "seed = (new_semaphores (accountList :: real ledger), accountList)"


text \<open>A deposit of 10 to account 1, then a withdrawal of 10 from it.\<close>

definition cancelling_pair :: "real transaction list" where
  "cancelling_pair =
     [\<lparr>transaction_id = 1, transaction_value = 10, transactionType = 2, userID = 1\<rparr>,
      \<lparr>transaction_id = 2, transaction_value = 10, transactionType = 1, userID = 1\<rparr>]"

text \<open>
  Two conversions to try \<open>produce\<close> on: they accept the few numerals listed and return
  an error for any other string.
\<close>

definition sample_Atoi :: "string \<Rightarrow> 64 word option" where
  "sample_Atoi s =
     (if s = ''1'' then Some 1 else if s = ''2'' then Some 2 else if s = ''3'' then Some 3
      else None)"

definition sample_ParseFloat :: "string \<Rightarrow> real option" where
  "sample_ParseFloat s = (if s = ''30'' then Some 30 else if s = ''20.5'' then Some 20.5 else None)"





section \<open>Basic facts\<close>

lemma map_index_Some: "al k = Some a \<Longrightarrow> map_index al k = a"
  by (simp add: map_index_def)

lemma account_rebuild:
  "\<lparr>account_id = account_id a, account_name = account_name a, account_value = x\<rparr>
     = a\<lparr>account_value := x\<rparr>"
  by (cases a) simp

lemma withdraw_existing:
  fixes t :: "'v::{zero,minus,ord} transaction"
  assumes "al (userID t) = Some a"
  shows "withdraw t al =
          (if account_value a \<ge> transaction_value t
           then al(userID t \<mapsto> a\<lparr>account_value := account_value a - transaction_value t\<rparr>)
           else al)"
  using assms by (simp add: withdraw_def withdraw_store_def map_index_Some account_rebuild)

lemma deposit_existing:
  fixes t :: "'v::{zero,plus} transaction"
  assumes "al (userID t) = Some a"
  shows "deposit t al =
           al(userID t \<mapsto> a\<lparr>account_value := account_value a + transaction_value t\<rparr>)"
  using assms by (simp add: deposit_def deposit_store_def map_index_Some account_rebuild)

text \<open>With its permit there and free, the loop body applies the switch and nothing else.\<close>

lemma consume_body_free:
  assumes "indexable sems (permit (userID t))" "sems ! nat (permit (userID t)) = 0"
  shows "consume_body t (sems, al) = (None, (sems, apply_transaction t al))"
proof -
  let ?i = "nat (permit (userID t))"
  from assms(1) have i: "?i < length sems" by (auto simp: indexable_def nat_less_iff)
  have "Acquire sems (permit (userID t)) = Inr (sems[?i := 1])"
    using assms by (simp add: Acquire_def)
  moreover have "Release (sems[?i := 1]) (permit (userID t)) = Inr sems"
    using assms i by (simp add: Release_def indexable_def list_update_same_conv)
  ultimately show ?thesis by (simp add: consume_body_def)
qed

lemma card_dom_accountList: "card (dom (accountList :: 'v::numeral ledger)) = 8"
  by (simp add: accountList_def)

lemma new_semaphores_accountList:
  "new_semaphores (accountList :: 'v::numeral ledger) = replicate 8 0"
  by (simp add: new_semaphores_def card_dom_accountList)

section \<open>Withdrawals\<close>

text \<open>
  Claim C3. A transaction of kind 1 (withdraw) on an account that the map holds: when the
  balance read is at least the amount, the entry is stored again with the balance less
  the amount; otherwise the map stays as it was. Either way the loop body ends without
  a fault and with the permits as before. At the seed entry 5, with balance 1, a
  withdrawal of 50 leaves the whole map unchanged.
\<close>

theorem withdraw_sufficient_or_dropped:
  fixes t :: "'v::{zero,plus,minus,ord} transaction"
  assumes "transactionType t = 1" and "al (userID t) = Some a"
    and "indexable sems (permit (userID t))" and "sems ! nat (permit (userID t)) = 0"
  shows "withdraw t al =
           (if account_value a \<ge> transaction_value t
            then al(userID t \<mapsto> a\<lparr>account_value := account_value a - transaction_value t\<rparr>)
            else al)
         \<and> consume_body t (sems, al) = (None, (sems, withdraw t al))"
  using assms by (simp add: withdraw_existing consume_body_free apply_transaction_def)

theorem withdraw_sufficient_or_dropped_witness:
  "map_option account_value ((accountList :: real ledger) 5) = Some 1
   \<and> withdraw \<lparr>transaction_id = 17, transaction_value = 50, transactionType = 1, userID = 5\<rparr>
        (accountList :: real ledger) = accountList
   \<and> consume_body
        \<lparr>transaction_id = 17, transaction_value = 50, transactionType = 1, userID = 5\<rparr>
        (new_semaphores (accountList :: real ledger), accountList :: real ledger)
       = (None, (new_semaphores (accountList :: real ledger), accountList))"
proof -
  let ?t = "\<lparr>transaction_id = 17, transaction_value = 50 :: real, transactionType = 1,
             userID = 5\<rparr>"
  let ?a = "\<lparr>account_id = 5, account_name = ''Fernando'', account_value = 1 :: real\<rparr>"
  have kind: "transactionType ?t = 1" by simp
  have entry: "(accountList :: real ledger) (userID ?t) = Some ?a"
    by (simp add: accountList_def)
  have ix: "indexable (new_semaphores (accountList :: real ledger)) (permit (userID ?t))"
    by (simp add: new_semaphores_accountList indexable_def permit_def)
  have free: "new_semaphores (accountList :: real ledger) ! nat (permit (userID ?t)) = 0"
    by (simp add: new_semaphores_accountList permit_def)
  from withdraw_sufficient_or_dropped
         [of ?t accountList ?a "new_semaphores (accountList :: real ledger)",
          OF kind entry ix free] entry
  show ?thesis by simp
qed

section \<open>Deposits\<close>

text \<open>
  Claim C4. A transaction of kind 2 (deposit) on an account that the map holds is always
  applied: the entry is stored again with the balance plus the amount, whatever the
  balance is, and the loop body ends without a fault and with the permits as before.
\<close>

theorem deposit_always_applies:
  fixes t :: "'v::{zero,plus,minus,ord} transaction"
  assumes "transactionType t = 2" and "al (userID t) = Some a"
    and "indexable sems (permit (userID t))" and "sems ! nat (permit (userID t)) = 0"
  shows "deposit t al =
           al(userID t \<mapsto> a\<lparr>account_value := account_value a + transaction_value t\<rparr>)
         \<and> consume_body t (sems, al) = (None, (sems, deposit t al))"
  using assms by (simp add: deposit_existing consume_body_free apply_transaction_def)

theorem deposit_always_applies_witness:
  "deposit \<lparr>transaction_id = 3, transaction_value = 50, transactionType = 2, userID = 5\<rparr>
        (accountList :: real ledger)
     = accountList(5 \<mapsto> \<lparr>account_id = 5, account_name = ''Fernando'', account_value = 51\<rparr>)
   \<and> consume_body
        \<lparr>transaction_id = 3, transaction_value = 50, transactionType = 2, userID = 5\<rparr>
        (new_semaphores (accountList :: real ledger), accountList :: real ledger)
       = (None, (new_semaphores (accountList :: real ledger),
                 accountList(5 \<mapsto> \<lparr>account_id = 5, account_name = ''Fernando'',
                                     account_value = 51\<rparr>)))"
proof -
  let ?t = "\<lparr>transaction_id = 3, transaction_value = 50 :: real, transactionType = 2,
             userID = 5\<rparr>"
  let ?a = "\<lparr>account_id = 5, account_name = ''Fernando'', account_value = 1 :: real\<rparr>"
  have kind: "transactionType ?t = 2" by simp
  have entry: "(accountList :: real ledger) (userID ?t) = Some ?a"
    by (simp add: accountList_def)
  have ix: "indexable (new_semaphores (accountList :: real ledger)) (permit (userID ?t))"
    by (simp add: new_semaphores_accountList indexable_def permit_def)
  have free: "new_semaphores (accountList :: real ledger) ! nat (permit (userID ?t)) = 0"
    by (simp add: new_semaphores_accountList permit_def)
  from deposit_always_applies
         [of ?t accountList ?a "new_semaphores (accountList :: real ledger)",
          OF kind entry ix free]
  show ?thesis by simp
qed

section \<open>What withdraw and deposit leave alone\<close>

text \<open>
  Claim C10. \<open>withdraw\<close> and \<open>deposit\<close> change the map at no key other than the
  transaction's \<open>userID\<close>, and an entry found under that key is stored back with its id
  and name: the new entry differs from the old one in the balance at most.
\<close>

theorem withdraw_deposit_frame:
  fixes t :: "'v::{zero,plus,minus,ord} transaction"
  shows "(\<forall>k. k \<noteq> userID t \<longrightarrow> withdraw t al k = al k \<and> deposit t al k = al k)
       \<and> (\<forall>a. al (userID t) = Some a \<longrightarrow>
            (\<exists>b. withdraw t al (userID t) = Some (a\<lparr>account_value := b\<rparr>))
          \<and> (\<exists>b. deposit t al (userID t) = Some (a\<lparr>account_value := b\<rparr>)))"
proof (intro conjI allI impI)
  fix k assume "k \<noteq> userID t"
  then show "withdraw t al k = al k" by (simp add: withdraw_def withdraw_store_def)
  from \<open>k \<noteq> userID t\<close> show "deposit t al k = al k" by (simp add: deposit_def deposit_store_def)
next
  fix a assume a: "al (userID t) = Some a"
  show "\<exists>b. withdraw t al (userID t) = Some (a\<lparr>account_value := b\<rparr>)"
  proof (cases "account_value a \<ge> transaction_value t")
    case True
    with a have "withdraw t al (userID t)
        = Some (a\<lparr>account_value := account_value a - transaction_value t\<rparr>)"
      by (simp add: withdraw_existing)
    then show ?thesis ..
  next
    case False
    with a have "withdraw t al (userID t) = Some (a\<lparr>account_value := account_value a\<rparr>)"
      by (simp add: withdraw_existing)
    then show ?thesis ..
  qed
  from a have "deposit t al (userID t)
      = Some (a\<lparr>account_value := account_value a + transaction_value t\<rparr>)"
    by (simp add: deposit_existing)
  then show "\<exists>b. deposit t al (userID t) = Some (a\<lparr>account_value := b\<rparr>)" ..
qed

theorem withdraw_deposit_frame_witness:
  "(2 :: 64 word) \<noteq> 1
   \<and> withdraw \<lparr>transaction_id = 4, transaction_value = 20, transactionType = 1, userID = 1\<rparr>
        (accountList :: real ledger) 2 = accountList 2
   \<and> deposit \<lparr>transaction_id = 4, transaction_value = 20, transactionType = 1, userID = 1\<rparr>
        (accountList :: real ledger) 2 = accountList 2
   \<and> (\<exists>b. withdraw \<lparr>transaction_id = 4, transaction_value = 20, transactionType = 1, userID = 1\<rparr>
        (accountList :: real ledger) 1
          = Some \<lparr>account_id = 1, account_name = ''Yuri'', account_value = b\<rparr>)
   \<and> (\<exists>b. deposit \<lparr>transaction_id = 4, transaction_value = 20, transactionType = 1, userID = 1\<rparr>
        (accountList :: real ledger) 1
          = Some \<lparr>account_id = 1, account_name = ''Yuri'', account_value = b\<rparr>)"
proof -
  let ?t = "\<lparr>transaction_id = 4, transaction_value = 20 :: real, transactionType = 1,
             userID = 1\<rparr>"
  let ?a = "\<lparr>account_id = 1, account_name = ''Yuri'', account_value = 200000 :: real\<rparr>"
  have entry: "(accountList :: real ledger) (userID ?t) = Some ?a"
    by (simp add: accountList_def)
  have other: "(2 :: 64 word) \<noteq> userID ?t" by simp
  from withdraw_deposit_frame [of ?t accountList] entry other
  show ?thesis by simp
qed

section \<open>The seed map\<close>

text \<open>
  Claim C6. The seed map is meant to be keyed by the account's id, with unique ids. The
  literal breaks this at its last entry: the account under key 8 carries id 7, the id of
  the account under key 7 as well.
\<close>

theorem seed_entry_eight_has_id_seven:
  "map_option account_id ((accountList :: real ledger) 8) = Some 7
   \<and> map_option account_id ((accountList :: real ledger) 7) = Some 7"
  by (simp add: accountList_def)

section \<open>Accounts without a permit\<close>

lemma sint_bounds64: "- (2^63) \<le> sint (u :: 64 word) \<and> sint u < 2^63"
  using sint_ge [of u] sint_lt [of u] by simp

lemma permit_cases: "permit u = (if sint u = - (2^63) then 2^63 - 1 else sint u - 1)"
proof (cases "sint u = - (2^63)")
  case True
  have "u = word_of_int (sint u)" by simp
  then have "u = word_of_int (- (2^63))" using True by simp
  then show ?thesis by (simp add: permit_def)
next
  case False
  with sint_bounds64 [of u] have "- (2^63) \<le> sint u - 1" "sint u - 1 < 2^63" by auto
  then have "signed_take_bit 63 (sint u - 1) = sint u - 1"
    by (simp add: signed_take_bit_int_eq_self)
  with False show ?thesis by (simp add: permit_def sint_word_ariths)
qed

text \<open>
  Claim C7. A transaction whose \<open>userID\<close> is below 1 or above the number of permits
  makes the index \<^verbatim>\<open>userID-1\<close> fall outside the slice, so \<^verbatim>\<open>Acquire\<close> is never
  reached: the loop stops with the index panic, the transaction is neither applied nor
  skipped, and the permits and the map are as they were. (A Go slice has fewer than
  \<open>2^63\<close> elements; the bound covers the one \<open>userID\<close> whose decrement wraps around.)
\<close>

theorem unknown_account_panics:
  fixes t :: "'v::{zero,plus,minus,ord} transaction"
  assumes "int (length sems) < 2^63"
    and "sint (userID t) < 1 \<or> int (length sems) < sint (userID t)"
  shows "Acquire sems (permit (userID t)) = Inl IndexOutOfRange
       \<and> consume_body t (sems, al) = (Some IndexOutOfRange, (sems, al))
       \<and> consume (t # rest) (sems, al) = (Some IndexOutOfRange, (sems, al))"
proof -
  have "\<not> indexable sems (permit (userID t))"
    using assms sint_bounds64 [of "userID t"]
    by (auto simp: permit_cases indexable_def)
  then have "Acquire sems (permit (userID t)) = Inl IndexOutOfRange"
    by (simp add: Acquire_def)
  then show ?thesis by (simp add: consume_body_def)
qed

theorem unknown_account_panics_witness:
  "sint (9 :: 64 word) = 9 \<and> length (new_semaphores (accountList :: real ledger)) = 8
   \<and> consume
       [\<lparr>transaction_id = 1, transaction_value = 10, transactionType = 2, userID = 9\<rparr>,
        \<lparr>transaction_id = 2, transaction_value = 10, transactionType = 2, userID = 1\<rparr>]
       (new_semaphores (accountList :: real ledger), accountList :: real ledger)
     = (Some IndexOutOfRange, (new_semaphores (accountList :: real ledger), accountList))"
proof -
  let ?sems = "new_semaphores (accountList :: real ledger)"
  let ?t = "\<lparr>transaction_id = 1, transaction_value = 10 :: real, transactionType = 2,
             userID = 9\<rparr>"
  let ?rest = "[\<lparr>transaction_id = 2, transaction_value = 10 :: real, transactionType = 2,
             userID = 1\<rparr>]"
  have len8: "length ?sems = 8" by (simp add: new_semaphores_accountList)
  have len: "int (length ?sems) < 2^63" by (simp add: len8)
  have out: "sint (userID ?t) < 1 \<or> int (length ?sems) < sint (userID ?t)"
    by (simp add: len8)
  from unknown_account_panics [where sems = ?sems and t = ?t and rest = ?rest
      and al = accountList, OF len out] len8
  show ?thesis by simp
qed

section \<open>Permits and consumers\<close>

lemma permit_inj: "permit u = permit v \<longleftrightarrow> u = v"
proof
  assume "permit u = permit v"
  then have "u - 1 = v - 1" unfolding permit_def by (rule signed_word_eqI)
  then show "u = v" by simp
qed simp

lemma nat_permit_inj:
  "0 \<le> permit u \<Longrightarrow> 0 \<le> permit v \<Longrightarrow> nat (permit u) = nat (permit v) \<longleftrightarrow> u = v"
  using permit_inj [of u v] by auto

text \<open>Replacing one consumer moves the count of holders by what it held before and after.\<close>

lemma held_update:
  "w < length cs \<Longrightarrow>
   held (cs[w := c]) u + (if holds (cs ! w) = Some u then 1 else 0)
     = held cs u + (if holds c = Some u then 1 else 0)"
proof (induction cs arbitrary: w)
  case Nil
  then show ?case by simp
next
  case (Cons a cs)
  show ?case
  proof (cases w)
    case 0
    then show ?thesis by (simp add: held_def)
  next
    case (Suc v)
    with Cons.prems have "v < length cs" by simp
    from Cons.IH [OF this] Suc show ?thesis by (simp add: held_def)
  qed
qed

lemma held_same:
  "w < length cs \<Longrightarrow> holds c = holds (cs ! w) \<Longrightarrow> held (cs[w := c]) u = held cs u"
  using held_update [of w cs c u] by (simp split: if_splits)

lemma held_take:
  "w < length cs \<Longrightarrow> holds (cs ! w) = None \<Longrightarrow> holds c = Some v \<Longrightarrow>
   held (cs[w := c]) u = held cs u + (if u = v then 1 else 0)"
  using held_update [of w cs c u] by (simp split: if_splits)

lemma held_give:
  "w < length cs \<Longrightarrow> holds (cs ! w) = Some v \<Longrightarrow> holds c = None \<Longrightarrow>
   held cs u = held (cs[w := c]) u + (if u = v then 1 else 0)"
  using held_update [of w cs c u] by (simp split: if_splits)

lemma held_replicate: "held (replicate n Receiving) u = 0"
  by (simp add: held_def)

lemma held_two:
  assumes "w1 < length cs" "w2 < length cs" "w1 \<noteq> w2"
    "holds (cs ! w1) = Some u" "holds (cs ! w2) = Some u"
  shows "2 \<le> held cs u"
proof -
  let ?S = "{i. i < length cs \<and> holds (cs ! i) = Some u}"
  have "{w1, w2} \<subseteq> ?S" using assms by simp
  moreover have "finite ?S" by simp
  ultimately have "card {w1, w2} \<le> card ?S" by (rule card_mono [rotated])
  with assms(3) show ?thesis by (simp add: held_def length_filter_conv_card)
qed

lemma updating_holds: "updating c = Some u \<Longrightarrow> holds c = Some u"
  by (cases c) simp_all

lemma accounted_main: "accounted (main al n input)"
  by (auto simp add: accounted_def main_def held_replicate new_semaphores_def indexable_def
        nat_less_iff)

lemma accounted_acquire:
  assumes acc: "accounted s" and w: "w < length (consumers s)"
    and c: "consumers s ! w = Acquiring t"
    and a: "Acquire (semaphores s) (permit (userID t)) = Inr sems"
  shows "accounted (s\<lparr>consumers := (consumers s)[w := Holding t], semaphores := sems\<rparr>)"
proof -
  let ?i = "nat (permit (userID t))"
  from a have ix: "indexable (semaphores s) (permit (userID t))"
    and free: "semaphores s ! ?i = 0"
    and sems: "sems = (semaphores s)[?i := 1]"
    by (auto simp: Acquire_def split: if_splits)
  from ix have i: "?i < length (semaphores s)" "0 \<le> permit (userID t)"
    by (auto simp: indexable_def nat_less_iff)
  have ixeq: "indexable sems x = indexable (semaphores s) x" for x
    by (simp add: sems indexable_def)
  have inv: "held (consumers s) u =
      (if indexable (semaphores s) (permit u) then semaphores s ! nat (permit u) else 0)" for u
    using acc by (simp add: accounted_def)
  have h: "held ((consumers s)[w := Holding t]) u
             = held (consumers s) u + (if u = userID t then 1 else 0)" for u
    using held_take [OF w, of "Holding t" "userID t" u] c by simp
  have "held ((consumers s)[w := Holding t]) u =
          (if indexable sems (permit u) then sems ! nat (permit u) else 0)" for u
  proof (cases "u = userID t")
    case True
    have "sems ! ?i = 1" using i by (simp add: sems)
    with True ix free show ?thesis by (simp add: h inv ixeq)
  next
    case False
    show ?thesis
    proof (cases "indexable (semaphores s) (permit u)")
      case True
      then have "0 \<le> permit u" by (simp add: indexable_def)
      with False i nat_permit_inj [of u "userID t"] have "nat (permit u) \<noteq> ?i" by simp
      then have "sems ! nat (permit u) = semaphores s ! nat (permit u)" by (simp add: sems)
      with False True show ?thesis by (simp add: h inv ixeq)
    next
      case F: False
      with False show ?thesis by (simp add: h inv ixeq)
    qed
  qed
  moreover have "sems ! j \<le> 1" if "j < length sems" for j
  proof -
    from that have j: "j < length (semaphores s)" by (simp add: sems)
    with acc have "semaphores s ! j \<le> 1" "semaphores s ! ?i \<le> 1"
      using i by (simp_all add: accounted_def)
    with j show ?thesis by (cases "j = ?i") (simp_all add: sems)
  qed
  ultimately show ?thesis by (simp add: accounted_def)
qed

lemma accounted_release:
  assumes acc: "accounted s" and w: "w < length (consumers s)"
    and c: "consumers s ! w = Releasing t"
    and a: "Release (semaphores s) (permit (userID t)) = Inr sems"
  shows "accounted (s\<lparr>consumers := (consumers s)[w := Receiving], semaphores := sems\<rparr>)"
proof -
  let ?i = "nat (permit (userID t))"
  from a have ix: "indexable (semaphores s) (permit (userID t))"
    and sems: "sems = (semaphores s)[?i := semaphores s ! ?i - 1]"
    by (auto simp: Release_def split: if_splits)
  from ix have i: "?i < length (semaphores s)" "0 \<le> permit (userID t)"
    by (auto simp: indexable_def nat_less_iff)
  have ixeq: "indexable sems x = indexable (semaphores s) x" for x
    by (simp add: sems indexable_def)
  have inv: "held (consumers s) u =
      (if indexable (semaphores s) (permit u) then semaphores s ! nat (permit u) else 0)" for u
    using acc by (simp add: accounted_def)
  have h: "held (consumers s) u
             = held ((consumers s)[w := Receiving]) u + (if u = userID t then 1 else 0)" for u
    using held_give [OF w, of "userID t" Receiving u] c by simp
  have "held ((consumers s)[w := Receiving]) u =
          (if indexable sems (permit u) then sems ! nat (permit u) else 0)" for u
  proof (cases "u = userID t")
    case True
    have "sems ! ?i = semaphores s ! ?i - 1" using i by (simp add: sems)
    moreover have "semaphores s ! ?i = held ((consumers s)[w := Receiving]) u + 1"
      using h [of u] inv [of u] True ix by simp
    ultimately show ?thesis using True ix by (simp add: ixeq)
  next
    case False
    show ?thesis
    proof (cases "indexable (semaphores s) (permit u)")
      case True
      then have "0 \<le> permit u" by (simp add: indexable_def)
      with False i nat_permit_inj [of u "userID t"] have "nat (permit u) \<noteq> ?i" by simp
      then have "sems ! nat (permit u) = semaphores s ! nat (permit u)" by (simp add: sems)
      with False True h [of u] inv [of u] show ?thesis by (simp add: ixeq)
    next
      case F: False
      with False h [of u] inv [of u] show ?thesis by (simp add: ixeq)
    qed
  qed
  moreover have "sems ! j \<le> 1" if "j < length sems" for j
  proof -
    from that have j: "j < length (semaphores s)" by (simp add: sems)
    with acc have "semaphores s ! j \<le> 1" "semaphores s ! ?i \<le> 1"
      using i by (simp_all add: accounted_def)
    with j show ?thesis by (cases "j = ?i") (simp_all add: sems)
  qed
  ultimately show ?thesis by (simp add: accounted_def)
qed

lemma accounted_halted: "accounted (s\<lparr>halted := h\<rparr>) = accounted s"
  by (simp add: accounted_def)

lemma accounted_consume_step:
  assumes "consume_step w s = Some s'" and acc: "accounted s"
  shows "accounted s'"
proof -
  from assms(1) have w: "w < length (consumers s)"
    by (simp add: consume_step_def split: if_splits)
  show ?thesis
  proof (cases "consumers s ! w")
    case Receiving
    with assms w show ?thesis
      by (auto simp: consume_step_def accounted_def held_same split: producer.splits)
  next
    case (Acquiring t)
    show ?thesis
    proof (cases "Acquire (semaphores s) (permit (userID t))")
      case (Inl h)
      with assms(1) Acquiring w have "s' = s\<lparr>halted := Some h\<rparr>"
        by (cases h) (simp_all add: consume_step_def)
      with acc show ?thesis by (simp add: accounted_halted)
    next
      case (Inr sems)
      with assms(1) Acquiring w
      have "s' = s\<lparr>consumers := (consumers s)[w := Holding t], semaphores := sems\<rparr>"
        by (simp add: consume_step_def)
      with accounted_acquire [OF acc w Acquiring Inr] show ?thesis by simp
    qed
  next
    case (Holding t)
    with assms w show ?thesis
      by (auto simp: consume_step_def accounted_def held_same)
  next
    case (Withdrawing t accountData)
    with assms w show ?thesis
      by (auto simp: consume_step_def accounted_def held_same)
  next
    case (Depositing t accountData)
    with assms w show ?thesis
      by (auto simp: consume_step_def accounted_def held_same)
  next
    case (Releasing t)
    show ?thesis
    proof (cases "Release (semaphores s) (permit (userID t))")
      case (Inl h)
      with assms(1) Releasing w have "s' = s\<lparr>halted := Some h\<rparr>"
        by (simp add: consume_step_def)
      with acc show ?thesis by (simp add: accounted_halted)
    next
      case (Inr sems)
      with assms(1) Releasing w
      have "s' = s\<lparr>consumers := (consumers s)[w := Receiving], semaphores := sems\<rparr>"
        by (simp add: consume_step_def)
      with accounted_release [OF acc w Releasing Inr] show ?thesis by simp
    qed
  next
    case Signalling
    with assms w show ?thesis
      by (auto simp: consume_step_def accounted_def held_same split: if_splits)
  next
    case Returned
    with assms w show ?thesis by (simp add: consume_step_def)
  qed
qed

lemma accounted_step:
  assumes "step g s = Some s'" "accounted s"
  shows "accounted s'"
proof (cases g)
  case Producer
  with assms show ?thesis
    by (auto simp: step_def produce_step_def accounted_def
          split: if_splits producer.splits list.splits sum.splits)
next
  case (Consumer w)
  with assms show ?thesis
    by (auto simp: step_def intro: accounted_consume_step split: if_splits)
next
  case Main
  with assms show ?thesis
    by (auto simp: step_def main_step_def accounted_def split: if_splits main_flow.splits)
qed

lemma accounted_run: "run gs s = Some s' \<Longrightarrow> accounted s \<Longrightarrow> accounted s'"
  by (induction gs arbitrary: s) (auto split: option.splits intro: accounted_step)

section \<open>Mutual exclusion per account\<close>

subsection \<open>Two runs of the program\<close>

lemma seed_entry1:
  "(accountList :: real ledger) 1
     = Some \<lparr>account_id = 1, account_name = ''Yuri'', account_value = 200000\<rparr>"
  by (simp add: accountList_def)

lemma seed_permit1:
  "indexable (new_semaphores (accountList :: real ledger)) (permit 1)"
  "new_semaphores (accountList :: real ledger) ! nat (permit 1) = 0"
  by (simp_all add: new_semaphores_accountList indexable_def permit_def)

text \<open>
  The deposit is sent twice. The first goes to consumer 1, the second to consumer 0;
  consumer 0 takes the permit of account 1 and reads the entry.
\<close>

lemma run_contended:
  "run [Producer, Consumer 1, Producer, Consumer 0, Consumer 0, Consumer 0]
     (main (accountList :: real ledger) consumerCount [Inr deposit30, Inr deposit30])
   = Some contended"
proof -
  have acq: "Acquire (new_semaphores (accountList :: real ledger)) (permit 1)
      = Inr ((new_semaphores (accountList :: real ledger))[0 := 1])"
    by (simp add: Acquire_def indexable_def permit_def new_semaphores_accountList)
  have kind: "transactionType deposit30 = 2" "userID deposit30 = 1"
    by (simp_all add: deposit30_def)
  have entry: "map_index (accountList :: real ledger) 1
      = \<lparr>account_id = 1, account_name = ''Yuri'', account_value = 200000\<rparr>"
    by (simp add: map_index_def seed_entry1)
  show ?thesis
    by (simp add: step_def running_def produce_step_def consume_step_def main_def
          consumerCount_def acq kind entry contended_def)
qed

text \<open>
  The deposit is sent once, to consumer 0. The producer closes the channel, consumer 1
  leaves its loop and sends \<^verbatim>\<open>done\<close>, and \<^verbatim>\<open>main\<close> reads the map.
\<close>

lemma run_reported_early:
  "run [Producer, Consumer 0, Producer, Consumer 1, Consumer 1, Main]
     (main (accountList :: real ledger) consumerCount [Inr deposit30])
   = Some reported_early"
  by (simp add: step_def running_def produce_step_def consume_step_def main_step_def
        main_def consumerCount_def reported_early_def)

subsection \<open>The exclusion\<close>

text \<open>
  Claim C2. In every state the program reaches under any schedule, from any seed map,
  any number of consumers and any input, and for every account id: at most one consumer
  holds the permit of that account, the counter of the account's semaphore is the number
  of those holders, and no two consumers are between the read and the store of a
  read-modify-write cycle on that account's entry at the same time.
\<close>

theorem mutual_exclusion:
  fixes s :: "'v::{zero,plus,minus,ord} system"
  assumes "run schedule (main al n input) = Some s"
  shows "held (consumers s) u \<le> 1
       \<and> (indexable (semaphores s) (permit u)
            \<longrightarrow> semaphores s ! nat (permit u) = held (consumers s) u)
       \<and> (\<forall>w1 w2. w1 < length (consumers s) \<and> w2 < length (consumers s)
             \<and> updating (consumers s ! w1) = Some u \<and> updating (consumers s ! w2) = Some u
            \<longrightarrow> w1 = w2)"
proof -
  from assms have acc: "accounted s" by (rule accounted_run) (rule accounted_main)
  then have counter: "indexable (semaphores s) (permit u)
      \<longrightarrow> semaphores s ! nat (permit u) = held (consumers s) u"
    by (simp add: accounted_def)
  have le: "held (consumers s) u \<le> 1"
  proof (cases "indexable (semaphores s) (permit u)")
    case True
    then have "nat (permit u) < length (semaphores s)"
      by (auto simp: indexable_def nat_less_iff)
    with acc True show ?thesis by (simp add: accounted_def)
  next
    case False
    with acc show ?thesis by (simp add: accounted_def)
  qed
  moreover have "w1 = w2"
    if "w1 < length (consumers s)" "w2 < length (consumers s)"
      "updating (consumers s ! w1) = Some u" "updating (consumers s ! w2) = Some u"
    for w1 w2
  proof (rule ccontr)
    assume "w1 \<noteq> w2"
    with that have "2 \<le> held (consumers s) u"
      by (intro held_two [of w1 _ w2]) (simp_all add: updating_holds)
    with le show False by simp
  qed
  ultimately show ?thesis using counter by blast
qed

theorem mutual_exclusion_witness:
  "run [Producer, Consumer 1, Producer, Consumer 0, Consumer 0, Consumer 0]
     (main (accountList :: real ledger) consumerCount [Inr deposit30, Inr deposit30])
     = Some contended
   \<and> updating (consumers contended ! 0) = Some 1
   \<and> consumers contended ! 1 = Acquiring deposit30
   \<and> userID deposit30 = 1
   \<and> indexable (semaphores contended) (permit 1)
   \<and> semaphores contended ! nat (permit 1) = 1
   \<and> held (consumers contended) 1 = 1"
proof -
  have "updating (consumers contended ! 0) = Some 1"
    "consumers contended ! 1 = Acquiring deposit30" "userID deposit30 = 1"
    by (simp_all add: contended_def consumerCount_def deposit30_def)
  moreover have "indexable (semaphores contended) (permit 1)"
    "semaphores contended ! nat (permit 1) = 1"
    by (simp_all add: contended_def new_semaphores_accountList indexable_def permit_def)
  ultimately show ?thesis
    using mutual_exclusion [OF run_contended, of 1] run_contended by simp
qed

section \<open>Completion\<close>

text \<open>
  Claim C1. The claim asks that \<^verbatim>\<open>main\<close> reads the map for its report only after every
  consumer has returned. \<^verbatim>\<open>main\<close> receives from \<^verbatim>\<open>done\<close> once, so the first consumer
  to send releases it. The program with its 50 consumers, on an input of one deposit,
  reaches this state by the schedule given: \<^verbatim>\<open>main\<close> has printed the seed map and returned, consumer 0 still
  has the deposit in hand and has not applied it, and the other consumers but one have
  not returned either.
\<close>

theorem report_before_consumers_return:
  "run [Producer, Consumer 0, Producer, Consumer 1, Consumer 1, Main]
     (main (accountList :: real ledger) consumerCount [Inr deposit30])
     = Some reported_early
   \<and> main_flow reported_early = Finished accountList
   \<and> consumers reported_early ! 0 = Acquiring deposit30
   \<and> consumers reported_early ! 1 = Returned
   \<and> consumers reported_early ! 2 = Receiving
   \<and> length (consumers reported_early) = 50
   \<and> map_option account_value (ledger reported_early 1) = Some 200000"
  using run_reported_early
  by (simp add: reported_early_def consumerCount_def seed_entry1)

section \<open>Malformed input\<close>

lemma malformed_fatal:
  "malformed Atoi ParseFloat row \<Longrightarrow> transaction_of_row Atoi ParseFloat row = Inl LogFatal"
  by (auto simp: malformed_def transaction_of_row_def split: option.splits)

lemma produce_append:
  "produce Atoi ParseFloat (pre @ rows) =
     (case produce Atoi ParseFloat pre of
        (sent, Some h) \<Rightarrow> (sent, Some h)
      | (sent, None) \<Rightarrow>
          (sent @ fst (produce Atoi ParseFloat rows), snd (produce Atoi ParseFloat rows)))"
  by (induction pre) (auto split: sum.splits prod.splits option.splits)

lemma halted_stuck: "halted s = Some h \<Longrightarrow> step g s = None"
  by (simp add: step_def running_def)

text \<open>
  Claim C8. When a field of a row fails to convert, \<open>produce\<close> ends in \<^verbatim>\<open>log.Fatal\<close>
  at that row (unless an earlier row has already ended the run): the transactions sent on
  the channel are those of the rows before it, so nothing is sent for that row or any
  later one, and the channel is not closed. In the running program the producer's next
  step at such a row sets the process to exited, after which no goroutine takes a step.
\<close>

theorem malformed_record_aborts:
  assumes "malformed Atoi ParseFloat row"
  shows "fst (produce Atoi ParseFloat (pre @ row # post)) = fst (produce Atoi ParseFloat pre)
       \<and> snd (produce Atoi ParseFloat (pre @ row # post)) =
           (case snd (produce Atoi ParseFloat pre) of None \<Rightarrow> Some LogFatal | Some h \<Rightarrow> Some h)
       \<and> (\<forall>s. running s
              \<and> producer s = Reading (map (transaction_of_row Atoi ParseFloat) (row # post))
            \<longrightarrow> step Producer s = Some (s\<lparr>halted := Some LogFatal\<rparr>)
                \<and> (\<forall>g. step g (s\<lparr>halted := Some LogFatal\<rparr>) = None))"
proof -
  from assms have f: "transaction_of_row Atoi ParseFloat row = Inl LogFatal"
    by (rule malformed_fatal)
  have 1: "fst (produce Atoi ParseFloat (pre @ row # post)) = fst (produce Atoi ParseFloat pre)"
    by (simp add: produce_append f split: prod.splits option.splits)
  have 2: "snd (produce Atoi ParseFloat (pre @ row # post)) =
           (case snd (produce Atoi ParseFloat pre) of None \<Rightarrow> Some LogFatal | Some h \<Rightarrow> Some h)"
    by (simp add: produce_append f split: prod.splits option.splits)
  have 3: "step Producer s = Some (s\<lparr>halted := Some LogFatal\<rparr>)
           \<and> (\<forall>g. step g (s\<lparr>halted := Some LogFatal\<rparr>) = None)"
    if "running s"
      "producer s = Reading (map (transaction_of_row Atoi ParseFloat) (row # post))" for s
  proof
    from that f show "step Producer s = Some (s\<lparr>halted := Some LogFatal\<rparr>)"
      by (simp add: step_def produce_step_def)
    show "\<forall>g. step g (s\<lparr>halted := Some LogFatal\<rparr>) = None"
      by (simp add: halted_stuck)
  qed
  from 1 2 3 show ?thesis by blast
qed

lemma sample_rows:
  "transaction_of_row sample_Atoi sample_ParseFloat [''1'', ''30'', ''2'', ''1''] = Inr deposit30"
  by (simp add: transaction_of_row_def sample_Atoi_def sample_ParseFloat_def deposit30_def)

theorem malformed_record_aborts_witness:
  "malformed sample_Atoi sample_ParseFloat [''2'', ''abc'', ''2'', ''1'']
   \<and> produce sample_Atoi sample_ParseFloat
        [[''1'', ''30'', ''2'', ''1''], [''2'', ''abc'', ''2'', ''1''], [''3'', ''30'', ''2'', ''1'']]
       = ([deposit30], Some LogFatal)
   \<and> produce sample_Atoi sample_ParseFloat
        [[''1'', ''30'', ''2'', ''1''], [''3'', ''30'', ''2'', ''1'']]
       = ([deposit30, deposit30\<lparr>transaction_id := 3\<rparr>], None)
   \<and> step Producer
         (main accountList consumerCount
            (map (transaction_of_row sample_Atoi sample_ParseFloat)
               [[''2'', ''abc'', ''2'', ''1''], [''3'', ''30'', ''2'', ''1'']]))
       = Some ((main accountList consumerCount
                  (map (transaction_of_row sample_Atoi sample_ParseFloat)
                     [[''2'', ''abc'', ''2'', ''1''], [''3'', ''30'', ''2'', ''1'']]))
                 \<lparr>halted := Some LogFatal\<rparr>)"
proof -
  let ?bad = "[''2'', ''abc'', ''2'', ''1'']"
  let ?pre = "[[''1'', ''30'', ''2'', ''1'']]"
  let ?post = "[[''3'', ''30'', ''2'', ''1'']]"
  let ?s = "main (accountList :: real ledger) consumerCount
               (map (transaction_of_row sample_Atoi sample_ParseFloat) (?bad # ?post))"
  have m: "malformed sample_Atoi sample_ParseFloat ?bad"
    by (simp add: malformed_def sample_ParseFloat_def)
  have pre: "produce sample_Atoi sample_ParseFloat ?pre = ([deposit30], None)"
    by (simp add: sample_rows)
  have two: "produce sample_Atoi sample_ParseFloat (?pre @ ?post)
       = ([deposit30, deposit30\<lparr>transaction_id := 3\<rparr>], None)"
    by (simp add: transaction_of_row_def sample_Atoi_def sample_ParseFloat_def deposit30_def)
  have run: "running ?s \<and> producer ?s
      = Reading (map (transaction_of_row sample_Atoi sample_ParseFloat) (?bad # ?post))"
    by (simp add: main_def running_def)
  note inst = malformed_record_aborts [OF m, of ?pre ?post]
  from inst pre have "produce sample_Atoi sample_ParseFloat (?pre @ ?bad # ?post)
      = ([deposit30], Some LogFatal)"
    by (simp add: prod_eq_iff del: produce.simps)
  moreover from inst run have "step Producer ?s = Some (?s\<lparr>halted := Some LogFatal\<rparr>)"
    by blast
  ultimately show ?thesis using m two by (simp del: produce.simps list.map)
qed

section \<open>A single account, one consumer\<close>

lemma consume_append:
  "consume (xs @ ys) s =
     (case consume xs s of (Some h, s1) \<Rightarrow> (Some h, s1) | (None, s1) \<Rightarrow> consume ys s1)"
  by (induction xs arbitrary: s) (auto split: prod.splits option.splits)











subsection \<open>Two deposits in float64\<close>
























subsection \<open>The balance of a single account\<close>






section \<open>Applying a stream twice\<close>

lemma consume_cancelling_pair: "consume cancelling_pair seed = (None, seed)"
proof -
  let ?a = "\<lparr>account_id = 1, account_name = ''Yuri'', account_value = 200000 :: real\<rparr>"
  have "(accountList :: real ledger)(1 \<mapsto> ?a) = accountList"
    using seed_entry1 by (rule map_upd_triv)
  then show ?thesis
    by (simp add: cancelling_pair_def seed_def consume_body_free seed_permit1
          apply_transaction_def withdraw_def deposit_def withdraw_store_def deposit_store_def
          map_index_def seed_entry1)
qed

text \<open>
  Claim C9, as stated, takes any stream with an applied deposit or withdrawal to give
  other balances when applied twice than when applied once. A deposit of 10 followed by a
  withdrawal of 10 on seed account 1 has both applied, and applying the pair twice leaves
  the same map as applying it once.
\<close>

theorem cancelling_stream_counterexample:
  "deposits cancelling_pair = [10]
   \<and> applied_withdrawals cancelling_pair seed = [10]
   \<and> ledger_after (cancelling_pair @ cancelling_pair) seed = ledger_after cancelling_pair seed"
proof -
  have "deposits cancelling_pair = [10]"
    by (simp add: deposits_def cancelling_pair_def)
  moreover have "applied_withdrawals cancelling_pair seed = [10]"
    apply (simp add: applied_withdrawals_def cancelling_pair_def seed_def upt_rec
        ledger_after_def balance_def consume_body_free seed_permit1 apply_transaction_def)
    apply (simp add: deposit_def deposit_store_def map_index_def seed_entry1)
    done
  moreover have "consume (cancelling_pair @ cancelling_pair) seed = consume cancelling_pair seed"
    by (simp add: consume_append consume_cancelling_pair)
  ultimately show ?thesis by (simp add: ledger_after_def)
qed

text \<open>
  Claim C9, amended. There is no deduplication by transaction id and applying a stream is
  not idempotent: for some stream and seed map, here the single deposit of 30 to seed
  account 1, applying the stream twice (the same transaction id both times) gives
  balances other than applying it once; the second application changes the balance again.
\<close>

theorem reapplied_deposit_changes_again:
  "balance (ledger_after [deposit30] seed) 1 = 200030
   \<and> balance (ledger_after ([deposit30] @ [deposit30]) seed) 1 = 200060
   \<and> ledger_after ([deposit30] @ [deposit30]) seed \<noteq> ledger_after [deposit30] seed"
proof -
  have once: "balance (ledger_after [deposit30] seed) 1 = 200030"
    by (simp add: ledger_after_def seed_def deposit30_def consume_body_free seed_permit1
          apply_transaction_def deposit_def deposit_store_def map_index_def seed_entry1
          balance_def)
  have twice: "balance (ledger_after ([deposit30] @ [deposit30]) seed) 1 = 200060"
    by (simp add: ledger_after_def seed_def deposit30_def consume_body_free seed_permit1
          apply_transaction_def deposit_def deposit_store_def map_index_def seed_entry1
          balance_def)
  have "ledger_after ([deposit30] @ [deposit30]) seed \<noteq> ledger_after [deposit30] seed"
  proof
    assume "ledger_after ([deposit30] @ [deposit30]) seed = ledger_after [deposit30] seed"
    with once twice show False by simp
  qed
  with once twice show ?thesis by simp
qed

end
